theory Spec2Isabelle
  imports Main "HOL-Library.Sublist"
begin

section \<open>Data model\<close>

text \<open>
  The record that \<open>getOpenFiles\<close> builds for one open text tab and that the
  webview script keeps in \<open>fileData\<close>: \<open>{ name, path, content }\<close>.
\<close>

record FileRecord =
  name :: string
  path :: string
  content :: string

text \<open>
  One \<open>div.file-item\<close> that \<open>renderFileList\<close> appends to \<open>#file-list\<close>:
  the checkbox with its \<open>data-index\<close> attribute and its \<open>checked\<close> state,
  and the two texts shown beside it (the label and the \<open>div.file-path\<close>).
\<close>

record FileItem =
  data_index :: string
  checked :: bool
  label_html :: string
  path_html :: string

text \<open>
  The state of the webview script: the array \<open>fileData\<close>, the items of
  \<open>#file-list\<close> in document order, and whether the combine button and the
  \<open>.selection-controls\<close> are displayed.
\<close>

record View =
  fileData :: "FileRecord list"
  fileList :: "FileItem list"
  combineButton_shown :: bool
  controls_shown :: bool

section \<open>escapeHtml\<close>

text \<open>
  \<open>str.replace(/[&<>"']/g, fn)\<close>: the global regular expression is a class of
  single characters, so the scan visits the characters from left to right, copies a
  character that the class does not match and puts \<open>fn(match)\<close> in place of one
  that it does. The scan continues after the matched character, never inside the
  replacement. \<open>CHR 0x22\<close> is the double quote, \<open>CHR 0x27\<close> the apostrophe.
\<close>

fun replace_global :: "(char \<Rightarrow> bool) \<Rightarrow> (char \<Rightarrow> string) \<Rightarrow> string \<Rightarrow> string" where
  "replace_global matches fn [] = []"
| "replace_global matches fn (c # str) =
     (if matches c then fn c else [c]) @ replace_global matches fn str"

definition escape_class :: "char list" where
  "escape_class = [CHR ''&'', CHR ''<'', CHR ''>'', CHR 0x22, CHR 0x27]"

text \<open>The object literal that the replacement function indexes with the match.\<close>

definition escape_table :: "(char \<times> string) list" where
  "escape_table =
     [(CHR ''&'', ''&amp;''), (CHR ''<'', ''&lt;''), (CHR ''>'', ''&gt;''),
      (CHR 0x22, ''&quot;''), (CHR 0x27, ''&#39;'')]"

text \<open>
  A key missing from the object literal would give \<open>undefined\<close>, which
  \<open>replace\<close> inserts as the text \<open>undefined\<close>.
\<close>

definition escape_match :: "char \<Rightarrow> string" where
  "escape_match m = (case map_of escape_table m of Some r \<Rightarrow> r | None \<Rightarrow> ''undefined'')"

definition escapeHtml :: "string \<Rightarrow> string" where
  "escapeHtml str = replace_global (\<lambda>c. c \<in> set escape_class) escape_match str"

section \<open>Rendering the file list\<close>

text \<open>
  The template literal \<open>${index}\<close> writes the array index in decimal. (An array
  index is below \<open>2^32\<close>, far from the numbers JavaScript prints with an exponent.)
\<close>

definition digit_char :: "nat \<Rightarrow> char" where
  "digit_char d = ''0123456789'' ! d"

fun show_nat :: "nat \<Rightarrow> string" where
  "show_nat n =
     (if n < 10 then [digit_char n] else show_nat (n div 10) @ [digit_char (n mod 10)])"

text \<open>The item built for \<open>(file, index)\<close>; the checkbox is created \<open>checked\<close>.\<close>

definition render_item :: "nat \<Rightarrow> FileRecord \<Rightarrow> FileItem" where
  "render_item index file =
     \<lparr>data_index = show_nat index, checked = True,
      label_html = escapeHtml (name file), path_html = escapeHtml (path file)\<rparr>"

text \<open>
  \<open>renderFileList\<close>. With an empty \<open>fileData\<close> it hides the button and the
  controls and returns before \<open>#file-list\<close> is cleared, so the items stay as they
  were; otherwise it replaces them by one item for each record, in array order.
\<close>

definition renderFileList :: "View \<Rightarrow> View" where
  "renderFileList v =
     (if length (fileData v) = 0
      then v\<lparr>combineButton_shown := False, controls_shown := False\<rparr>
      else v\<lparr>controls_shown := True,
             fileList := map (\<lambda>(index, file). render_item index file)
                           (enumerate 0 (fileData v)),
             combineButton_shown := True\<rparr>)"

text \<open>The page as loaded: no file data, only the loading message, button hidden.\<close>

definition initial_view :: View where
  "initial_view =
     \<lparr>fileData = [], fileList = [], combineButton_shown = False, controls_shown = True\<rparr>"

text \<open>The handler of the message \<open>updateFiles\<close>.\<close>

definition updateFiles :: "FileRecord list \<Rightarrow> View \<Rightarrow> View" where
  "updateFiles files v = renderFileList (v\<lparr>fileData := files\<rparr>)"

section \<open>Selection\<close>

text \<open>The click handlers of \<open>#select-all-button\<close> and \<open>#unselect-all-button\<close>.\<close>

definition selectAll :: "View \<Rightarrow> View" where
  "selectAll v = v\<lparr>fileList := map (\<lambda>checkbox. checkbox\<lparr>checked := True\<rparr>) (fileList v)\<rparr>"

definition unselectAll :: "View \<Rightarrow> View" where
  "unselectAll v = v\<lparr>fileList := map (\<lambda>checkbox. checkbox\<lparr>checked := False\<rparr>) (fileList v)\<rparr>"

text \<open>
  A click on the checkbox \<open>file-i\<close> (directly, or through
  \<open>document.getElementById('file-i').click()\<close> of the \<open>div.file-info\<close>): the
  checkbox changes its \<open>checked\<close> state. Items exist for the indices below the
  number of items only; there is nothing to click for another index.
\<close>

definition toggle :: "nat \<Rightarrow> View \<Rightarrow> View" where
  "toggle i v =
     (if i < length (fileList v)
      then v\<lparr>fileList := (fileList v)[i := (fileList v ! i)\<lparr>checked := \<not> checked (fileList v ! i)\<rparr>]\<rparr>
      else v)"

section \<open>The combine button\<close>

text \<open>
  \<open>parseInt(string, 10)\<close>: leading white space is skipped, one sign is read, and
  the longest run of decimal digits that follows is the value; without a digit the
  result is \<open>NaN\<close>, here \<open>None\<close>. Strings are modelled with 8-bit characters, so
  the white space is the ASCII part of JavaScript's. The value is an unbounded integer:
  a double is exact below \<open>2^53\<close>, and a larger value is no index of an array either
  way. A missing \<open>data-index\<close> attribute reads as \<open>undefined\<close>, which
  \<open>parseInt\<close> converts to the string \<open>undefined\<close>.
\<close>

definition is_space :: "char \<Rightarrow> bool" where
  "is_space c \<longleftrightarrow> c \<in> set [CHR 0x09, CHR 0x0A, CHR 0x0B, CHR 0x0C, CHR 0x0D, CHR 0x20]"

definition is_digit :: "char \<Rightarrow> bool" where
  "is_digit c \<longleftrightarrow> c \<in> set ''0123456789''"

definition digit_val :: "char \<Rightarrow> nat" where
  "digit_val c = of_char c - 48"

definition digits_val :: "string \<Rightarrow> nat" where
  "digits_val z = foldl (\<lambda>acc c. 10 * acc + digit_val c) 0 z"

definition parseInt :: "string \<Rightarrow> int option" where
  "parseInt str =
     (let s = dropWhile is_space str;
          sign = (case s of c # _ \<Rightarrow> if c = CHR ''-'' then - 1 else 1 | [] \<Rightarrow> (1::int));
          s' = (case s of c # r \<Rightarrow> if c = CHR ''+'' \<or> c = CHR ''-'' then r else s | [] \<Rightarrow> s);
          z = takeWhile is_digit s'
      in if z = [] then None else Some (sign * int (digits_val z)))"

text \<open>
  \<open>fileData[index]\<close>: the element when the number is an index of the array,
  \<open>undefined\<close> (\<open>None\<close>) for \<open>NaN\<close>, a negative number or a number
  from the length on.
\<close>

definition array_get :: "'a list \<Rightarrow> int option \<Rightarrow> 'a option" where
  "array_get arr index =
     (case index of
        None \<Rightarrow> None
      | Some i \<Rightarrow> if 0 \<le> i \<and> nat i < length arr then Some (arr ! nat i) else None)"

definition header :: "FileRecord \<Rightarrow> string" where
  "header file = ''// ===== File: '' @ path file @ '' =====\<newline>\<newline>''"

text \<open>
  The body of the \<open>forEach\<close> over the checked checkboxes: a record is truthy,
  \<open>undefined\<close> is not, so only an index with a record pushes a section.
\<close>

definition push_selected :: "FileRecord list \<Rightarrow> FileItem \<Rightarrow> string list \<Rightarrow> string list" where
  "push_selected fd checkbox selectedContents =
     (let index = parseInt (data_index checkbox);
          file = array_get fd index
      in case file of
           Some f \<Rightarrow> selectedContents @ [header f @ content f]
         | None \<Rightarrow> selectedContents)"

text \<open>\<open>Array.prototype.join\<close> on an array of strings.\<close>

fun join :: "string \<Rightarrow> string list \<Rightarrow> string" where
  "join sep [] = []"
| "join sep [x] = x"
| "join sep (x # y # ys) = x @ sep @ join sep (y # ys)"

text \<open>
  \<open>querySelectorAll('input[type="checkbox"]:checked')\<close> returns the checked
  checkboxes in document order; the only checkboxes of the document are those of
  \<open>#file-list\<close>.
\<close>

definition checked_checkboxes :: "View \<Rightarrow> FileItem list" where
  "checked_checkboxes v = filter checked (fileList v)"

definition selectedContents :: "View \<Rightarrow> string list" where
  "selectedContents v = fold (push_selected (fileData v)) (checked_checkboxes v) []"

text \<open>The text that the click handler posts with \<open>generateFile\<close>.\<close>

definition combine :: "View \<Rightarrow> string" where
  "combine v = join ''\<newline>\<newline>'' (selectedContents v)"

text \<open>The indices that the handler reads off the checked checkboxes.\<close>

definition selectedIndices :: "View \<Rightarrow> int option list" where
  "selectedIndices v = map (\<lambda>checkbox. parseInt (data_index checkbox)) (checked_checkboxes v)"

text \<open>
  The records behind the checked items of a view whose items were rendered for its
  \<open>fileData\<close>: the selection that the combine button works on, in array order.
\<close>

definition selected_records :: "View \<Rightarrow> FileRecord list" where
  "selected_records v =
     map fst (filter (\<lambda>(file, checkbox). checked checkbox) (zip (fileData v) (fileList v)))"

text \<open>
  A view is \<open>rendered\<close> when its items are those that \<open>renderFileList\<close> made for
  its \<open>fileData\<close>, whatever their \<open>checked\<close> states are now: item \<open>i\<close>
  carries \<open>data-index="i"\<close>.
\<close>

definition rendered :: "View \<Rightarrow> bool" where
  "rendered v \<longleftrightarrow> map data_index (fileList v) = map show_nat [0..<length (fileData v)]"

text \<open>
  The occurrences of a pattern in a text, from left to right, each given by the text
  that follows it. Their number is the number of occurrences.
\<close>

fun occurrences :: "string \<Rightarrow> string \<Rightarrow> string list" where
  "occurrences p [] = (if p = [] then [[]] else [])"
| "occurrences p (c # s) =
     (if prefix p (c # s) then [drop (length p) (c # s)] else []) @ occurrences p s"

section \<open>getOpenFiles\<close>

text \<open>
  A tab of the editor with its \<open>input\<close>; a \<open>TabInputText\<close> carries the
  \<open>fsPath\<close> of its uri. A tab group has its \<open>tabs\<close>.
\<close>

datatype TabInput = TabInputText string | TabInputOther

record Tab =
  input :: TabInput

record TabGroup =
  tabs :: "Tab list"

text \<open>
  What the function uses of the editor and of Node: \<open>path.basename\<close>,
  \<open>vscode.workspace.asRelativePath\<close> and \<open>vscode.workspace.openTextDocument\<close>,
  which throws (\<open>Inl\<close>) or gives a document, taken here as its \<open>getText()\<close>.
  Within one call of \<open>getOpenFiles\<close> the answer depends on the uri only.
\<close>

record Host =
  basename :: "string \<Rightarrow> string"
  asRelativePath :: "string \<Rightarrow> string"
  openTextDocument :: "string \<Rightarrow> string + string"

text \<open>
  The async callback of \<open>tabs.map\<close>, as the promise it returns once settled:
  \<open>Inr\<close> is fulfilled, \<open>Inl\<close> rejected. The \<open>try\<close> encloses everything
  that can throw, so the promise is fulfilled, with the record or with \<open>null\<close>
  (\<open>None\<close>); the \<open>catch\<close> branch writes to the console and returns
  \<open>null\<close>.
\<close>

definition read_tab :: "Host \<Rightarrow> Tab \<Rightarrow> string + FileRecord option" where
  "read_tab h tab =
     (case input tab of
        TabInputText uri \<Rightarrow>
          (case openTextDocument h uri of
             Inr document \<Rightarrow>
               Inr (Some \<lparr>name = basename h uri, path = asRelativePath h uri, content = document\<rparr>)
           | Inl e \<Rightarrow> Inr None)
      | TabInputOther \<Rightarrow> Inr None)"

text \<open>
  \<open>Promise.all\<close>. The promises settle in some order, given as the list of their
  positions. A fulfilled promise stores its value in the slot of its position and
  counts down the remaining elements; the aggregate is fulfilled with the slots when
  none remains, and rejected by the first rejection. A position that is no promise or
  that has settled before is ignored. \<open>None\<close> is an aggregate that is pending when
  the list ends. An empty array is fulfilled at once.
\<close>

fun promise_all_run ::
  "('e + 'a) list \<Rightarrow> nat list \<Rightarrow> 'a option list \<Rightarrow> nat \<Rightarrow> ('e + 'a list) option" where
  "promise_all_run ps [] slots remaining = None"
| "promise_all_run ps (i # order) slots remaining =
     (if i < length ps \<and> slots ! i = None
      then (case ps ! i of
              Inl e \<Rightarrow> Some (Inl e)
            | Inr x \<Rightarrow>
                (let slots' = slots[i := Some x]; remaining' = remaining - 1
                 in if remaining' = 0 then Some (Inr (map the slots'))
                    else promise_all_run ps order slots' remaining'))
      else promise_all_run ps order slots remaining)"

definition promise_all :: "('e + 'a) list \<Rightarrow> nat list \<Rightarrow> ('e + 'a list) option" where
  "promise_all ps order =
     (if ps = [] then Some (Inr [])
      else promise_all_run ps order (replicate (length ps) None) (length ps))"

text \<open>
  \<open>getOpenFiles\<close> for the tab groups \<open>all\<close>, with the order in which the reads
  of the tabs complete. The result is the settled promise of the function, \<open>None\<close>
  while it is pending.
\<close>

definition getOpenFiles ::
  "Host \<Rightarrow> TabGroup list \<Rightarrow> nat list \<Rightarrow> (string + FileRecord list) option" where
  "getOpenFiles h all order =
     (let tabs = concat (map tabs all);
          filePromises = map (read_tab h) tabs
      in case promise_all filePromises order of
           None \<Rightarrow> None
         | Some (Inl e) \<Rightarrow> Some (Inl e)
         | Some (Inr files) \<Rightarrow> Some (Inr (map the (filter (\<lambda>f. f \<noteq> None) files))))"

text \<open>An order of completion in which each of \<open>n\<close> reads completes once.\<close>

definition completion_order :: "nat \<Rightarrow> nat list \<Rightarrow> bool" where
  "completion_order n order \<longleftrightarrow>
     length order = n \<and> distinct order \<and> list_all (\<lambda>i. i < n) order"

text \<open>
  The records of the tabs that are text tabs and whose document could be read, in the
  order of the tabs.
\<close>

fun readable_records :: "Host \<Rightarrow> Tab list \<Rightarrow> FileRecord list" where
  "readable_records h [] = []"
| "readable_records h (tab # rest) =
     (case input tab of
        TabInputText uri \<Rightarrow>
          (case openTextDocument h uri of
             Inr text \<Rightarrow>
               [\<lparr>name = basename h uri, path = asRelativePath h uri, content = text\<rparr>]
           | Inl e \<Rightarrow> [])
      | TabInputOther \<Rightarrow> [])
     @ readable_records h rest"

text \<open>The value that the promise of a tab is fulfilled with.\<close>

definition tab_file :: "Host \<Rightarrow> Tab \<Rightarrow> FileRecord option" where
  "tab_file h tab = (case read_tab h tab of Inr x \<Rightarrow> x | Inl e \<Rightarrow> None)"

declare show_nat.simps [simp del]

section \<open>The index written by the renderer is the index read by the combine button\<close>

lemma digit_cases: "d < 10 \<Longrightarrow> d = 0 \<or> d = 1 \<or> d = 2 \<or> d = 3 \<or> d = 4 \<or> d = 5 \<or> d = 6 \<or> d = 7 \<or> d = 8 \<or> d = (9::nat)"
  by arith

lemma is_digit_digit_char: "d < 10 \<Longrightarrow> is_digit (digit_char d)"
  using digit_cases [of d] by (auto simp: is_digit_def digit_char_def)

lemma digit_val_digit_char: "d < 10 \<Longrightarrow> digit_val (digit_char d) = d"
  using digit_cases [of d] by (auto simp: digit_val_def digit_char_def)

lemma is_digit_not_space: "is_digit c \<Longrightarrow> \<not> is_space c \<and> c \<noteq> CHR ''+'' \<and> c \<noteq> CHR ''-''"
  by (auto simp: is_digit_def is_space_def)

lemma show_nat_digits: "c \<in> set (show_nat n) \<Longrightarrow> is_digit c"
proof (induction n rule: show_nat.induct)
  case (1 n)
  show ?case
  proof (cases "n < 10")
    case True
    with "1.prems" show ?thesis
      by (simp add: show_nat.simps [of n] is_digit_digit_char)
  next
    case False
    with "1.prems" "1.IH" show ?thesis
      by (auto simp: show_nat.simps [of n] is_digit_digit_char)
  qed
qed

lemma show_nat_not_Nil: "show_nat n \<noteq> []"
  by (simp add: show_nat.simps [of n])

lemma digits_val_snoc: "digits_val (z @ [c]) = 10 * digits_val z + digit_val c"
  by (simp add: digits_val_def)

lemma digits_val_show_nat: "digits_val (show_nat n) = n"
proof (induction n rule: show_nat.induct)
  case (1 n)
  show ?case
  proof (cases "n < 10")
    case True
    then show ?thesis
      by (simp add: show_nat.simps [of n] digits_val_def digit_val_digit_char)
  next
    case False
    with "1.IH" show ?thesis
      by (simp add: show_nat.simps [of n] digits_val_snoc digit_val_digit_char)
  qed
qed

lemma parseInt_show_nat: "parseInt (show_nat n) = Some (int n)"
proof -
  obtain c r where cr: "show_nat n = c # r"
    using show_nat_not_Nil [of n] by (cases "show_nat n") auto
  have dig: "\<forall>x \<in> set (c # r). is_digit x"
    using show_nat_digits [of _ n] cr by auto
  then have c: "\<not> is_space c" "c \<noteq> CHR ''+''" "c \<noteq> CHR ''-''"
    using is_digit_not_space [of c] by auto
  have tw: "takeWhile is_digit (c # r) = c # r"
    using dig by simp
  have "parseInt (c # r) = Some (int (digits_val (c # r)))"
    unfolding parseInt_def using c tw by (simp add: Let_def)
  then show ?thesis
    using digits_val_show_nat [of n] cr by simp
qed

section \<open>The sections pushed for a rendered view\<close>

lemma fold_push_selected:
  "fold (push_selected fd) cbs acc =
     acc @ concat (map (\<lambda>cb. case array_get fd (parseInt (data_index cb)) of
                               Some f \<Rightarrow> [header f @ content f] | None \<Rightarrow> []) cbs)"
  by (induction cbs arbitrary: acc) (auto simp: push_selected_def split: option.splits)

lemma array_get_index: "i < length arr \<Longrightarrow> array_get arr (Some (int i)) = Some (arr ! i)"
  by (simp add: array_get_def)

lemma pushed_aligned:
  "list_all2 (\<lambda>f cb. g cb = [h f]) fd cbs \<Longrightarrow>
   concat (map g (filter checked cbs)) =
     map h (map fst (filter (\<lambda>(f, cb). checked cb) (zip fd cbs)))"
  by (induction fd cbs rule: list_all2_induct) auto

lemma rendered_aligned:
  assumes "rendered v"
  shows "list_all2 (\<lambda>f cb. (case array_get (fileData v) (parseInt (data_index cb)) of
                               Some f \<Rightarrow> [header f @ content f] | None \<Rightarrow> []) = [header f @ content f])
           (fileData v) (fileList v)"
proof -
  from assms have m: "map data_index (fileList v) = map show_nat [0..<length (fileData v)]"
    by (simp add: rendered_def)
  then have len: "length (fileList v) = length (fileData v)"
    using length_map [of data_index "fileList v"] by simp
  have "data_index (fileList v ! i) = show_nat i" if "i < length (fileData v)" for i
  proof -
    have "map data_index (fileList v) ! i = map show_nat [0..<length (fileData v)] ! i"
      using m by simp
    with that len show ?thesis by simp
  qed
  then show ?thesis
    using len by (simp add: list_all2_conv_all_nth parseInt_show_nat array_get_index)
qed

lemma selectedContents_rendered:
  assumes "rendered v"
  shows "selectedContents v = map (\<lambda>f. header f @ content f) (selected_records v)"
  unfolding selectedContents_def checked_checkboxes_def selected_records_def fold_push_selected
  using pushed_aligned [OF rendered_aligned [OF assms]] by simp

lemma data_index_render:
  "map (data_index \<circ> (\<lambda>(index, file). render_item index file)) (enumerate 0 fs) =
     map show_nat [0..<length fs]"
proof -
  have "data_index \<circ> (\<lambda>(index, file). render_item index file) = show_nat \<circ> fst"
    by (auto simp: render_item_def)
  then have "map (data_index \<circ> (\<lambda>(index, file). render_item index file)) (enumerate 0 fs) =
        map show_nat (map fst (enumerate 0 fs))"
    by (simp only: map_map)
  then show ?thesis by simp
qed

text \<open>
  A list that has been rendered stays rendered under the clicks of the page, so the
  rendered views with any choice of checked items are the views that the page reaches.
\<close>

lemma rendered_updateFiles: "files \<noteq> [] \<Longrightarrow> rendered (updateFiles files v)"
  by (simp add: rendered_def updateFiles_def renderFileList_def data_index_render)

lemma rendered_initial: "rendered (updateFiles files initial_view)"
  by (simp add: rendered_def updateFiles_def renderFileList_def data_index_render initial_view_def)

lemma rendered_selectAll: "rendered v \<Longrightarrow> rendered (selectAll v)"
  by (simp add: rendered_def selectAll_def o_def)

lemma rendered_unselectAll: "rendered v \<Longrightarrow> rendered (unselectAll v)"
  by (simp add: rendered_def unselectAll_def o_def)

lemma map_data_index_update:
  "map data_index (xs[i := (xs ! i)\<lparr>checked := b\<rparr>]) = map data_index xs"
proof (cases "i < length xs")
  case True
  then show ?thesis
    by (intro nth_equalityI) (simp_all add: nth_list_update)
next
  case False
  then show ?thesis by (simp add: list_update_beyond)
qed

lemma rendered_toggle: "rendered v \<Longrightarrow> rendered (toggle i v)"
  by (simp add: rendered_def toggle_def map_data_index_update)

lemma selected_records_index:
  "length xs = length ys \<Longrightarrow>
   map fst (filter (\<lambda>(x, y). P y) (zip xs ys)) =
     map (\<lambda>i. xs ! i) (filter (\<lambda>i. P (ys ! i)) [0..<length xs])"
proof (induction xs ys rule: list_induct2)
  case Nil
  then show ?case by simp
next
  case (Cons x xs y ys)
  have "[0..<length (x # xs)] = 0 # map Suc [0..<length xs]"
    by (simp add: upt_conv_Cons map_Suc_upt del: upt_Suc)
  then show ?case
    using Cons.IH by (simp add: filter_map o_def del: upt_Suc)
qed

lemma rendered_length: "rendered v \<Longrightarrow> length (fileList v) = length (fileData v)"
  using length_map [of data_index "fileList v"] by (simp add: rendered_def)

lemma subseq_selected: "subseq (map fst (filter Q (zip xs ys))) xs"
proof -
  have "subseq (map fst (filter Q (zip xs ys))) (map fst (zip xs ys))"
    by (intro subseq_map subseq_filter_left)
  moreover have "subseq (map fst (zip xs ys)) xs"
    by (simp add: map_fst_zip_take prefix_imp_subseq take_is_prefix)
  ultimately show ?thesis by (rule subseq_order.trans)
qed

lemma selected_records_fresh: "selected_records (updateFiles S initial_view) = S"
proof -
  have "filter (\<lambda>(file, checkbox). checked checkbox)
          (zip S (map (\<lambda>(index, file). render_item index file) (enumerate 0 S))) =
        zip S (map (\<lambda>(index, file). render_item index file) (enumerate 0 S))"
    by (rule filter_True) (auto simp: set_zip render_item_def in_set_conv_nth nth_enumerate_eq)
  then show ?thesis
    by (simp add: selected_records_def updateFiles_def renderFileList_def initial_view_def)
qed

lemma combine_rendered:
  "rendered v \<Longrightarrow>
   combine v = join ''\<newline>\<newline>'' (map (\<lambda>file. header file @ content file) (selected_records v))"
  using selectedContents_rendered [of v] by (simp add: combine_def)

lemma concat_map_Nil: "concat (map (\<lambda>x. []) xs) = []"
  by (induction xs) simp_all

lemma array_get_Nil: "array_get [] index = None"
  by (simp add: array_get_def split: option.splits)

lemma selectedContents_skip:
  "array_get (fileData v) (parseInt (data_index item)) = None \<Longrightarrow>
   selectedContents (v\<lparr>fileList := pre @ item # post\<rparr>) = selectedContents (v\<lparr>fileList := pre @ post\<rparr>)"
  by (simp add: selectedContents_def checked_checkboxes_def fold_push_selected)

section \<open>The combined text\<close>

text \<open>
  The text that \<open>join\<close> builds, written out: the first section, and before every
  further section the separator.
\<close>

lemma join_concat: "join sep (x # xs) = x @ concat (map (\<lambda>s. sep @ s) xs)"
  by (induction xs arbitrary: x) simp_all

lemma combine_text:
  assumes "rendered v"
  shows "combine v =
     (case selected_records v of
        [] \<Rightarrow> []
      | f # fs \<Rightarrow>
          (header f @ content f) @ concat (map (\<lambda>g. ''\<newline>\<newline>'' @ header g @ content g) fs))"
proof (cases "selected_records v")
  case Nil
  with combine_rendered [OF assms] show ?thesis by simp
next
  case (Cons f fs)
  with combine_rendered [OF assms] show ?thesis
    by (simp only: list.map join_concat map_map o_def list.case)
qed

text \<open>
  C1. For a view whose items were rendered for its file data, the combined text is empty
  when nothing is selected and otherwise the section of the first selected record
  followed, for every further selected record in order, by two newline characters and
  the section of that record; a section is the header line
  \<open>// ===== File: {path} =====\<close>, an empty line and the unmodified content. Every
  sequence of records is such a selection (all records of a fresh list are selected),
  and the records \<open>a.txt\<close>/\<open>hello\<close> and \<open>b.txt\<close>/\<open>world\<close> give
  exactly the text of the specification.
\<close>

theorem combine_format:
  "(rendered v \<longrightarrow>
      combine v =
        (case selected_records v of
           [] \<Rightarrow> []
         | f # fs \<Rightarrow>
             (''// ===== File: '' @ path f @ '' ====='' @ ''\<newline>'' @ ''\<newline>'' @ content f)
             @ concat (map (\<lambda>g. ''\<newline>\<newline>''
                              @ ''// ===== File: '' @ path g @ '' ====='' @ ''\<newline>'' @ ''\<newline>'' @ content g) fs)))
   \<and> selected_records (updateFiles S initial_view) = S
   \<and> combine (updateFiles S initial_view) =
        (case S of
           [] \<Rightarrow> []
         | f # fs \<Rightarrow>
             (''// ===== File: '' @ path f @ '' ====='' @ ''\<newline>'' @ ''\<newline>'' @ content f)
             @ concat (map (\<lambda>g. ''\<newline>\<newline>''
                              @ ''// ===== File: '' @ path g @ '' ====='' @ ''\<newline>'' @ ''\<newline>'' @ content g) fs))
   \<and> combine (updateFiles [\<lparr>name = na, path = ''a.txt'', content = ''hello''\<rparr>,
                            \<lparr>name = nb, path = ''b.txt'', content = ''world''\<rparr>] initial_view) =
        ''// ===== File: a.txt =====\<newline>\<newline>hello\<newline>\<newline>// ===== File: b.txt =====\<newline>\<newline>world''"
proof -
  have fmt: "combine v =
        (case selected_records v of
           [] \<Rightarrow> []
         | f # fs \<Rightarrow>
             (''// ===== File: '' @ path f @ '' ====='' @ ''\<newline>'' @ ''\<newline>'' @ content f)
             @ concat (map (\<lambda>g. ''\<newline>\<newline>''
                              @ ''// ===== File: '' @ path g @ '' ====='' @ ''\<newline>'' @ ''\<newline>'' @ content g) fs))"
    if "rendered v" for v
    using combine_text [OF that] by (simp add: header_def split: list.splits)
  have fresh: "combine (updateFiles S initial_view) =
        (case S of
           [] \<Rightarrow> []
         | f # fs \<Rightarrow>
             (''// ===== File: '' @ path f @ '' ====='' @ ''\<newline>'' @ ''\<newline>'' @ content f)
             @ concat (map (\<lambda>g. ''\<newline>\<newline>''
                              @ ''// ===== File: '' @ path g @ '' ====='' @ ''\<newline>'' @ ''\<newline>'' @ content g) fs))"
    for S
    using fmt [OF rendered_initial, of S] by (simp only: selected_records_fresh)
  have ex: "combine (updateFiles [\<lparr>name = na, path = ''a.txt'', content = ''hello''\<rparr>,
                            \<lparr>name = nb, path = ''b.txt'', content = ''world''\<rparr>] initial_view) =
        ''// ===== File: a.txt =====\<newline>\<newline>hello\<newline>\<newline>// ===== File: b.txt =====\<newline>\<newline>world''"
    by (simp add: fresh)
  show ?thesis
    using fmt fresh ex selected_records_fresh by blast
qed

theorem combine_format_witness:
  "rendered (toggle 1 (updateFiles [\<lparr>name = ''a.txt'', path = ''a.txt'', content = ''hello''\<rparr>,
        \<lparr>name = ''b.txt'', path = ''src/b.txt'', content = ''world''\<rparr>,
        \<lparr>name = ''c.txt'', path = ''c.txt'', content = ''!''\<rparr>,
        \<lparr>name = ''d.txt'', path = ''lib/d.txt'', content = ''done''\<rparr>] initial_view))
   \<and> combine (toggle 1 (updateFiles [\<lparr>name = ''a.txt'', path = ''a.txt'', content = ''hello''\<rparr>,
        \<lparr>name = ''b.txt'', path = ''src/b.txt'', content = ''world''\<rparr>,
        \<lparr>name = ''c.txt'', path = ''c.txt'', content = ''!''\<rparr>,
        \<lparr>name = ''d.txt'', path = ''lib/d.txt'', content = ''done''\<rparr>] initial_view)) =
       ''// ===== File: a.txt =====\<newline>\<newline>hello\<newline>\<newline>// ===== File: c.txt =====\<newline>\<newline>!\<newline>\<newline>// ===== File: lib/d.txt =====\<newline>\<newline>done''"
proof -
  let ?v = "toggle 1 (updateFiles [\<lparr>name = ''a.txt'', path = ''a.txt'', content = ''hello''\<rparr>,
        \<lparr>name = ''b.txt'', path = ''src/b.txt'', content = ''world''\<rparr>,
        \<lparr>name = ''c.txt'', path = ''c.txt'', content = ''!''\<rparr>,
        \<lparr>name = ''d.txt'', path = ''lib/d.txt'', content = ''done''\<rparr>] initial_view)"
  have r: "rendered ?v"
    by (simp add: rendered_def toggle_def updateFiles_def renderFileList_def initial_view_def
        render_item_def enumerate_eq_zip show_nat.simps digit_char_def upt_conv_Cons)
  have s: "selected_records ?v = [\<lparr>name = ''a.txt'', path = ''a.txt'', content = ''hello''\<rparr>,
        \<lparr>name = ''c.txt'', path = ''c.txt'', content = ''!''\<rparr>,
        \<lparr>name = ''d.txt'', path = ''lib/d.txt'', content = ''done''\<rparr>]"
    by (simp add: selected_records_def toggle_def updateFiles_def renderFileList_def initial_view_def
        render_item_def enumerate_eq_zip upt_conv_Cons)
  show ?thesis
    using r s combine_format [where v = ?v] by simp
qed

text \<open>
  C2. For a view rendered for the records \<open>R\<close> and any choice of checked items, the
  handler pushes one section for each index whose item is checked, in ascending index
  order: the selected records are a subsequence of \<open>R\<close>, none twice and none
  missing. The combined text is the sections of the checked indices, written in
  strictly ascending order of the index, with two newline characters between them.
\<close>

theorem combine_selection_order:
  "rendered v \<Longrightarrow>
     selectedContents v =
       map (\<lambda>i. header (fileData v ! i) @ content (fileData v ! i))
         (filter (\<lambda>i. checked (fileList v ! i)) [0..<length (fileData v)])
   \<and> selected_records v =
       map (\<lambda>i. fileData v ! i) (filter (\<lambda>i. checked (fileList v ! i)) [0..<length (fileData v)])
   \<and> subseq (selected_records v) (fileData v)
   \<and> length (selectedContents v) = length (filter checked (fileList v))
   \<and> combine v =
       (case filter (\<lambda>i. checked (fileList v ! i)) [0..<length (fileData v)] of
          [] \<Rightarrow> []
        | i # js \<Rightarrow>
            (''// ===== File: '' @ path (fileData v ! i) @ '' =====\<newline>\<newline>'' @ content (fileData v ! i))
            @ concat (map (\<lambda>j. ''\<newline>\<newline>'' @ ''// ===== File: '' @ path (fileData v ! j)
                                  @ '' =====\<newline>\<newline>'' @ content (fileData v ! j)) js))
   \<and> sorted_wrt (<) (filter (\<lambda>i. checked (fileList v ! i)) [0..<length (fileData v)])"
proof -
  assume r: "rendered v"
  let ?sel = "filter (\<lambda>i. checked (fileList v ! i)) [0..<length (fileData v)]"
  have idx: "selected_records v = map (\<lambda>i. fileData v ! i) ?sel"
    unfolding selected_records_def
    using selected_records_index [of "fileData v" "fileList v" checked] rendered_length [OF r]
    by simp
  have sc: "selectedContents v = map (\<lambda>f. header f @ content f) (selected_records v)"
    by (rule selectedContents_rendered [OF r])
  have len: "length (selected_records v) = length (filter checked (fileList v))"
  proof -
    have "length (filter (\<lambda>(file, checkbox). checked checkbox) (zip (fileData v) (fileList v))) =
          length (filter checked (map snd (zip (fileData v) (fileList v))))"
      by (simp add: filter_map o_def split_def)
    then show ?thesis
      using rendered_length [OF r] by (simp add: selected_records_def)
  qed
  have sub: "subseq (selected_records v) (fileData v)"
    unfolding selected_records_def by (rule subseq_selected)
  have ct: "combine v =
       (case ?sel of
          [] \<Rightarrow> []
        | i # js \<Rightarrow>
            (''// ===== File: '' @ path (fileData v ! i) @ '' =====\<newline>\<newline>'' @ content (fileData v ! i))
            @ concat (map (\<lambda>j. ''\<newline>\<newline>'' @ ''// ===== File: '' @ path (fileData v ! j)
                                  @ '' =====\<newline>\<newline>'' @ content (fileData v ! j)) js))"
    using combine_text [OF r] unfolding idx
    by (cases ?sel) (simp_all add: header_def o_def)
  have asc: "sorted_wrt (<) ?sel"
    by (rule sorted_wrt_filter) simp
  show ?thesis
    using idx sc len sub ct asc by (simp add: o_def)
qed

theorem combine_selection_order_witness:
  "rendered (toggle 2 (toggle 0 (updateFiles [\<lparr>name = ''a.txt'', path = ''a.txt'', content = ''hello''\<rparr>,
        \<lparr>name = ''b.txt'', path = ''src/b.txt'', content = ''world''\<rparr>,
        \<lparr>name = ''c.txt'', path = ''c.txt'', content = ''!''\<rparr>,
        \<lparr>name = ''d.txt'', path = ''lib/d.txt'', content = ''done''\<rparr>,
        \<lparr>name = ''e.txt'', path = ''e.txt'', content = ''end''\<rparr>] initial_view)))
   \<and> combine (toggle 2 (toggle 0 (updateFiles [\<lparr>name = ''a.txt'', path = ''a.txt'', content = ''hello''\<rparr>,
        \<lparr>name = ''b.txt'', path = ''src/b.txt'', content = ''world''\<rparr>,
        \<lparr>name = ''c.txt'', path = ''c.txt'', content = ''!''\<rparr>,
        \<lparr>name = ''d.txt'', path = ''lib/d.txt'', content = ''done''\<rparr>,
        \<lparr>name = ''e.txt'', path = ''e.txt'', content = ''end''\<rparr>] initial_view))) =
      ''// ===== File: src/b.txt =====\<newline>\<newline>world\<newline>\<newline>// ===== File: lib/d.txt =====\<newline>\<newline>done\<newline>\<newline>// ===== File: e.txt =====\<newline>\<newline>end''"
proof -
  let ?v = "toggle 2 (toggle 0 (updateFiles [\<lparr>name = ''a.txt'', path = ''a.txt'', content = ''hello''\<rparr>,
        \<lparr>name = ''b.txt'', path = ''src/b.txt'', content = ''world''\<rparr>,
        \<lparr>name = ''c.txt'', path = ''c.txt'', content = ''!''\<rparr>,
        \<lparr>name = ''d.txt'', path = ''lib/d.txt'', content = ''done''\<rparr>,
        \<lparr>name = ''e.txt'', path = ''e.txt'', content = ''end''\<rparr>] initial_view))"
  have r: "rendered ?v"
    by (simp add: rendered_def toggle_def updateFiles_def renderFileList_def initial_view_def
        render_item_def enumerate_eq_zip show_nat.simps digit_char_def upt_conv_Cons)
  have f: "fileData ?v = [\<lparr>name = ''a.txt'', path = ''a.txt'', content = ''hello''\<rparr>,
        \<lparr>name = ''b.txt'', path = ''src/b.txt'', content = ''world''\<rparr>,
        \<lparr>name = ''c.txt'', path = ''c.txt'', content = ''!''\<rparr>,
        \<lparr>name = ''d.txt'', path = ''lib/d.txt'', content = ''done''\<rparr>,
        \<lparr>name = ''e.txt'', path = ''e.txt'', content = ''end''\<rparr>]"
    by (simp add: toggle_def updateFiles_def renderFileList_def initial_view_def)
  have "filter (\<lambda>i. checked (fileList ?v ! i)) [0..<length (fileData ?v)] = [1, 3, 4]"
    by (simp add: toggle_def updateFiles_def renderFileList_def initial_view_def
        render_item_def enumerate_eq_zip upt_conv_Cons)
  then show ?thesis
    using r combine_selection_order [of ?v] f by simp
qed

section \<open>Occurrences of the header marker\<close>

lemma prefix_before_foreign:
  assumes "x \<notin> set p"
  shows "prefix p (a @ x # b) \<longleftrightarrow> prefix p a"
proof
  assume "prefix p (a @ x # b)"
  then consider "prefix p a" | us where "p = a @ us" "prefix us (x # b)"
    by (auto simp: prefix_append)
  then show "prefix p a"
  proof cases
    case 1
    then show ?thesis .
  next
    case 2
    with assms have "us = []"
      by (cases us) auto
    with 2 show ?thesis by simp
  qed
next
  assume "prefix p a"
  then show "prefix p (a @ x # b)"
    by (simp add: prefix_append)
qed

lemma occurrences_foreign_head:
  "p \<noteq> [] \<Longrightarrow> x \<notin> set p \<Longrightarrow> occurrences p (x # b) = occurrences p b"
  by (cases p) auto

lemma occurrences_split:
  assumes "p \<noteq> []" "x \<notin> set p"
  shows "occurrences p (a @ x # b) = map (\<lambda>t. t @ x # b) (occurrences p a) @ occurrences p b"
proof (induction a)
  case Nil
  from assms show ?case
    by (simp add: occurrences_foreign_head del: occurrences.simps(2))
next
  case (Cons c a)
  have pre: "prefix p (c # a @ x # b) \<longleftrightarrow> prefix p (c # a)"
    using prefix_before_foreign [OF assms(2), of "c # a" b] by simp
  have "drop (length p) (c # a @ x # b) = drop (length p) (c # a) @ x # b" if "prefix p (c # a)"
  proof -
    from that have "length p \<le> length (c # a)"
      by (rule prefix_length_le)
    then show ?thesis
      using drop_append [of "length p" "c # a" "x # b"] by simp
  qed
  with pre Cons.IH show ?case
    by auto
qed

lemma occurrences_marker:
  "occurrences ''// ===== File: '' (''// ===== File: '' @ t) = t # occurrences ''// ===== File: '' t"
  by simp

lemma occurrences_section:
  assumes "occurrences ''// ===== File: '' (path f @ '' ====='') = []"
    and "occurrences ''// ===== File: '' (content f) = []"
  shows "occurrences ''// ===== File: '' (header f @ content f) =
           [path f @ '' =====\<newline>\<newline>'' @ content f]"
proof -
  have "header f @ content f =
        ''// ===== File: '' @ ((path f @ '' ====='') @ CHR ''\<newline>'' # (CHR ''\<newline>'' # content f))"
    by (simp add: header_def)
  then have "occurrences ''// ===== File: '' (header f @ content f) =
        ((path f @ '' ====='') @ CHR ''\<newline>'' # (CHR ''\<newline>'' # content f))
        # occurrences ''// ===== File: '' ((path f @ '' ====='') @ CHR ''\<newline>'' # (CHR ''\<newline>'' # content f))"
    by (simp only: occurrences_marker)
  also have "occurrences ''// ===== File: '' ((path f @ '' ====='') @ CHR ''\<newline>'' # (CHR ''\<newline>'' # content f)) =
        occurrences ''// ===== File: '' (CHR ''\<newline>'' # content f)"
    using assms(1) by (subst occurrences_split) simp_all
  also have "\<dots> = []"
    using assms(2) by (subst occurrences_foreign_head) simp_all
  finally show ?thesis by simp
qed

lemma occurrences_join:
  assumes "\<forall>f \<in> set fs. occurrences ''// ===== File: '' (path f @ '' ====='') = []
                        \<and> occurrences ''// ===== File: '' (content f) = []"
  shows "list_all2 (\<lambda>f t. prefix (path f @ '' ====='') t) fs
           (occurrences ''// ===== File: ''
              (join ''\<newline>\<newline>'' (map (\<lambda>f. header f @ content f) fs)))"
  using assms
proof (induction fs)
  case Nil
  then show ?case by simp
next
  case (Cons f fs)
  then have sec: "occurrences ''// ===== File: '' (header f @ content f) =
           [path f @ '' =====\<newline>\<newline>'' @ content f]"
    by (intro occurrences_section) simp_all
  show ?case
  proof (cases fs)
    case Nil
    with sec show ?thesis by simp
  next
    case (Cons g gs)
    let ?rest = "join ''\<newline>\<newline>'' (map (\<lambda>f. header f @ content f) fs)"
    have j: "join ''\<newline>\<newline>'' (map (\<lambda>f. header f @ content f) (f # fs)) =
             (header f @ content f) @ CHR ''\<newline>'' # (CHR ''\<newline>'' # ?rest)"
      using Cons by simp
    have "occurrences ''// ===== File: '' ((header f @ content f) @ CHR ''\<newline>'' # (CHR ''\<newline>'' # ?rest)) =
          map (\<lambda>t. t @ CHR ''\<newline>'' # (CHR ''\<newline>'' # ?rest)) (occurrences ''// ===== File: '' (header f @ content f))
          @ occurrences ''// ===== File: '' (CHR ''\<newline>'' # ?rest)"
      by (rule occurrences_split) simp_all
    also have "occurrences ''// ===== File: '' (CHR ''\<newline>'' # ?rest) = occurrences ''// ===== File: '' ?rest"
      by (rule occurrences_foreign_head) simp_all
    finally have "occurrences ''// ===== File: '' (join ''\<newline>\<newline>'' (map (\<lambda>f. header f @ content f) (f # fs))) =
          (path f @ '' =====\<newline>\<newline>'' @ content f @ CHR ''\<newline>'' # (CHR ''\<newline>'' # ?rest))
          # occurrences ''// ===== File: '' ?rest"
      unfolding j sec by simp
    moreover have "list_all2 (\<lambda>f t. prefix (path f @ '' ====='') t) fs (occurrences ''// ===== File: '' ?rest)"
      using Cons.IH Cons.prems by simp
    ultimately show ?thesis
      by simp
  qed
qed

text \<open>
  C3 as stated fails: the content is copied unmodified, so a record whose content is the
  marker \<open>// ===== File: \<close> itself gives a combined text with two occurrences of
  the marker for one record.
\<close>

theorem header_count_counterexample:
  "length (occurrences ''// ===== File: ''
      (combine (updateFiles [\<lparr>name = ''a.txt'', path = ''a.txt'', content = ''// ===== File: ''\<rparr>] initial_view)))
   \<noteq> length [\<lparr>name = ''a.txt'', path = ''a.txt'', content = ''// ===== File: ''\<rparr>]"
proof -
  have "combine (updateFiles [\<lparr>name = ''a.txt'', path = ''a.txt'', content = ''// ===== File: ''\<rparr>] initial_view) =
        ''// ===== File: a.txt =====\<newline>\<newline>// ===== File: ''"
    using selectedContents_rendered [OF rendered_initial,
        of "[\<lparr>name = ''a.txt'', path = ''a.txt'', content = ''// ===== File: ''\<rparr>]"]
    by (simp add: combine_def header_def selected_records_def updateFiles_def renderFileList_def
        initial_view_def render_item_def enumerate_eq_zip)
  then show ?thesis
    by simp
qed

text \<open>
  C3, amended. When no selected record has the marker in its content or in its path
  followed by \<open> =====\<close>, the combined text of a rendered view has exactly one
  occurrence of \<open>// ===== File: \<close> for each selected record, and the k-th
  occurrence is immediately followed by the path of the k-th selected record and
  \<open> =====\<close>.
\<close>

theorem header_count:
  assumes "rendered v"
    and "\<forall>f \<in> set (selected_records v).
           occurrences ''// ===== File: '' (path f @ '' ====='') = []
           \<and> occurrences ''// ===== File: '' (content f) = []"
  shows "length (occurrences ''// ===== File: '' (combine v)) = length (selected_records v)
         \<and> (\<forall>k < length (selected_records v).
               prefix (path (selected_records v ! k) @ '' ====='')
                 (occurrences ''// ===== File: '' (combine v) ! k))"
proof -
  have "combine v = join ''\<newline>\<newline>'' (map (\<lambda>f. header f @ content f) (selected_records v))"
    using selectedContents_rendered [OF assms(1)] by (simp add: combine_def)
  then have "list_all2 (\<lambda>f t. prefix (path f @ '' ====='') t) (selected_records v)
               (occurrences ''// ===== File: '' (combine v))"
    using occurrences_join [OF assms(2)] by simp
  then show ?thesis
    by (simp add: list_all2_conv_all_nth)
qed

theorem header_count_witness:
  "rendered (updateFiles [\<lparr>name = ''a.txt'', path = ''a.txt'', content = ''hello''\<rparr>,
        \<lparr>name = ''b.txt'', path = ''src/b.txt'', content = ''// world''\<rparr>] initial_view)
   \<and> length (occurrences ''// ===== File: ''
        (combine (updateFiles [\<lparr>name = ''a.txt'', path = ''a.txt'', content = ''hello''\<rparr>,
        \<lparr>name = ''b.txt'', path = ''src/b.txt'', content = ''// world''\<rparr>] initial_view))) = 2"
proof -
  let ?files = "[\<lparr>name = ''a.txt'', path = ''a.txt'', content = ''hello''\<rparr>,
        \<lparr>name = ''b.txt'', path = ''src/b.txt'', content = ''// world''\<rparr>]"
  let ?v = "updateFiles ?files initial_view"
  have r: "rendered ?v"
    by (simp add: rendered_def updateFiles_def renderFileList_def initial_view_def
        render_item_def enumerate_eq_zip show_nat.simps digit_char_def upt_conv_Cons)
  have s: "selected_records ?v = ?files"
    by (simp add: selected_records_def updateFiles_def renderFileList_def initial_view_def
        render_item_def enumerate_eq_zip upt_conv_Cons)
  have h: "\<forall>f \<in> set (selected_records ?v).
           occurrences ''// ===== File: '' (path f @ '' ====='') = []
           \<and> occurrences ''// ===== File: '' (content f) = []"
    unfolding s by simp
  show ?thesis
    using r header_count [OF r h] s by simp
qed

section \<open>Selections without a record\<close>

text \<open>
  C4. With no checked checkbox the handler pushes nothing and the combined text is the
  empty string, in particular after \<open>Unselect All\<close> and on the page as loaded. The
  handler has no failing step: its result is a string in every view.
\<close>

theorem combine_empty_selection:
  "(checked_checkboxes v = [] \<longrightarrow> selectedContents v = [] \<and> combine v = [])
   \<and> combine (unselectAll v) = []
   \<and> combine initial_view = []"
proof -
  have none: "selectedContents w = [] \<and> combine w = []" if "checked_checkboxes w = []" for w
    using that by (simp add: combine_def selectedContents_def)
  have "checked_checkboxes (unselectAll v) = []"
    by (simp add: checked_checkboxes_def unselectAll_def filter_empty_conv)
  moreover have "checked_checkboxes initial_view = []"
    by (simp add: checked_checkboxes_def initial_view_def)
  ultimately show ?thesis
    using none by blast
qed

theorem combine_empty_selection_witness:
  "checked_checkboxes (unselectAll (updateFiles [\<lparr>name = ''a.txt'', path = ''a.txt'', content = ''hello''\<rparr>] initial_view)) = []
   \<and> combine (unselectAll (updateFiles [\<lparr>name = ''a.txt'', path = ''a.txt'', content = ''hello''\<rparr>] initial_view)) = []"
proof -
  let ?v = "unselectAll (updateFiles [\<lparr>name = ''a.txt'', path = ''a.txt'', content = ''hello''\<rparr>] initial_view)"
  have h: "checked_checkboxes ?v = []"
    by (simp add: checked_checkboxes_def unselectAll_def updateFiles_def renderFileList_def
        initial_view_def render_item_def enumerate_eq_zip)
  show ?thesis
    using h combine_empty_selection [of ?v] by simp
qed

section \<open>Escaping\<close>

lemma escapeHtml_Cons:
  "escapeHtml (c # s) =
     (if c = CHR ''&'' then ''&amp;''
      else if c = CHR ''<'' then ''&lt;''
      else if c = CHR ''>'' then ''&gt;''
      else if c = CHR 0x22 then ''&quot;''
      else if c = CHR 0x27 then ''&#39;''
      else [c]) @ escapeHtml s"
  by (simp add: escapeHtml_def escape_class_def escape_match_def escape_table_def)

text \<open>
  C5. \<open>escapeHtml\<close> goes through the string once from left to right and writes
  \<open>&amp;\<close> for \<open>&\<close>, \<open>&lt;\<close> for \<open><\<close>, \<open>&gt;\<close> for
  \<open>>\<close>, \<open>&quot;\<close> for the double quote and \<open>&#39;\<close> for the
  apostrophe, and every other character as it is; the replacements are not scanned
  again. The string \<open><b>&'"\<close> becomes \<open>&lt;b&gt;&amp;&#39;&quot;\<close>. The
  renderer escapes the name and the path that it displays; the combined text has the
  path and the content as they are.
\<close>

theorem escapeHtml_display_only:
  "escapeHtml [] = []
   \<and> escapeHtml (c # s) =
       (if c = CHR ''&'' then ''&amp;''
        else if c = CHR ''<'' then ''&lt;''
        else if c = CHR ''>'' then ''&gt;''
        else if c = CHR 0x22 then ''&quot;''
        else if c = CHR 0x27 then ''&#39;''
        else [c]) @ escapeHtml s
   \<and> escapeHtml (s @ t) = escapeHtml s @ escapeHtml t
   \<and> escapeHtml [CHR ''<'', CHR ''b'', CHR ''>'', CHR ''&'', CHR 0x27, CHR 0x22] = ''&lt;b&gt;&amp;&#39;&quot;''
   \<and> map label_html (fileList (updateFiles files initial_view)) = map (\<lambda>file. escapeHtml (name file)) files
   \<and> map path_html (fileList (updateFiles files initial_view)) = map (\<lambda>file. escapeHtml (path file)) files
   \<and> combine (updateFiles files initial_view) =
       join ''\<newline>\<newline>'' (map (\<lambda>file. ''// ===== File: '' @ path file @ '' =====\<newline>\<newline>'' @ content file) files)"
proof -
  have app: "escapeHtml (s @ t) = escapeHtml s @ escapeHtml t"
    by (induction s) (simp_all add: escapeHtml_def)
  have ex: "escapeHtml [CHR ''<'', CHR ''b'', CHR ''>'', CHR ''&'', CHR 0x27, CHR 0x22] = ''&lt;b&gt;&amp;&#39;&quot;''"
    by (simp add: escapeHtml_Cons) (simp add: escapeHtml_def)
  have lab: "map label_html (map (\<lambda>(index, file). render_item index file) (enumerate n fs)) =
             map (\<lambda>file. escapeHtml (name file)) fs" for n fs
    by (induction fs arbitrary: n) (simp_all add: render_item_def)
  have pth: "map path_html (map (\<lambda>(index, file). render_item index file) (enumerate n fs)) =
             map (\<lambda>file. escapeHtml (path file)) fs" for n fs
    by (induction fs arbitrary: n) (simp_all add: render_item_def)
  have raw: "combine (updateFiles files initial_view) =
       join ''\<newline>\<newline>'' (map (\<lambda>file. ''// ===== File: '' @ path file @ '' =====\<newline>\<newline>'' @ content file) files)"
    using combine_rendered [OF rendered_initial, of files] selected_records_fresh [of files]
    by (simp add: header_def)
  have l: "map label_html (fileList (updateFiles files initial_view)) = map (\<lambda>file. escapeHtml (name file)) files"
    using lab [of 0 files] by (simp add: updateFiles_def renderFileList_def initial_view_def)
  have p: "map path_html (fileList (updateFiles files initial_view)) = map (\<lambda>file. escapeHtml (path file)) files"
    using pth [of 0 files] by (simp add: updateFiles_def renderFileList_def initial_view_def)
  show ?thesis
    using app ex l p raw escapeHtml_Cons [of c s] by (simp add: escapeHtml_def)
qed

section \<open>The selection model\<close>

lemma selectedIndices_updateFiles:
  "files \<noteq> [] \<or> fileList v = [] \<Longrightarrow>
   selectedIndices (updateFiles files v) = map (\<lambda>i. Some (int i)) [0..<length files]"
proof -
  assume a: "files \<noteq> [] \<or> fileList v = []"
  let ?items = "fileList (updateFiles files v)"
  have all: "filter checked ?items = ?items"
    by (rule filter_True)
      (use a in \<open>auto simp: updateFiles_def renderFileList_def render_item_def\<close>)
  have "map data_index ?items = map show_nat [0..<length files]"
    using a by (auto simp: updateFiles_def renderFileList_def data_index_render)
  then have "map parseInt (map data_index ?items) = map (\<lambda>i. Some (int i)) [0..<length files]"
    by (simp add: parseInt_show_nat o_def)
  then show ?thesis
    using all by (simp add: selectedIndices_def checked_checkboxes_def o_def)
qed

text \<open>
  C6. After the file list of \<open>n\<close> records has been rendered, on the fresh page
  for every \<open>n\<close> and on any view for \<open>n > 0\<close>, every item is checked and the
  selected indices are \<open>0, 1, ..., n-1\<close> in ascending order. (The page asks for the
  files once, when it is loaded, so the list is rendered on the fresh page.) After
  \<open>Unselect All\<close> no index is selected. A click on checkbox \<open>i\<close> changes the
  \<open>checked\<close> state of item \<open>i\<close> and leaves every other item as it is.
\<close>

theorem selection_model:
  "selectedIndices (updateFiles files initial_view) = map (\<lambda>i. Some (int i)) [0..<length files]
   \<and> (files \<noteq> [] \<longrightarrow>
        selectedIndices (updateFiles files v) = map (\<lambda>i. Some (int i)) [0..<length files]
        \<and> length (fileList (updateFiles files v)) = length files
        \<and> list_all checked (fileList (updateFiles files v)))
   \<and> selectedIndices (unselectAll v) = []
   \<and> (i < length (fileList v) \<longrightarrow>
        checked (fileList (toggle i v) ! i) = (\<not> checked (fileList v ! i))
        \<and> (\<forall>j. j \<noteq> i \<longrightarrow> fileList (toggle i v) ! j = fileList v ! j)
        \<and> length (fileList (toggle i v)) = length (fileList v)
        \<and> map data_index (fileList (toggle i v)) = map data_index (fileList v))"
proof -
  have 1: "selectedIndices (updateFiles files initial_view) = map (\<lambda>i. Some (int i)) [0..<length files]"
    by (rule selectedIndices_updateFiles) (simp add: initial_view_def)
  have 2: "selectedIndices (updateFiles files v) = map (\<lambda>i. Some (int i)) [0..<length files]"
    if "files \<noteq> []"
    using that by (intro selectedIndices_updateFiles) simp
  have 3: "length (fileList (updateFiles files v)) = length files
        \<and> list_all checked (fileList (updateFiles files v))" if "files \<noteq> []"
    using that by (auto simp: updateFiles_def renderFileList_def render_item_def list_all_iff)
  have 4: "selectedIndices (unselectAll v) = []"
    by (simp add: selectedIndices_def checked_checkboxes_def unselectAll_def filter_empty_conv)
  have 5: "checked (fileList (toggle i v) ! i) = (\<not> checked (fileList v ! i))
        \<and> (\<forall>j. j \<noteq> i \<longrightarrow> fileList (toggle i v) ! j = fileList v ! j)
        \<and> length (fileList (toggle i v)) = length (fileList v)
        \<and> map data_index (fileList (toggle i v)) = map data_index (fileList v)"
    if "i < length (fileList v)"
    using that by (simp add: toggle_def map_data_index_update)
  show ?thesis
    using 1 2 3 4 5 by blast
qed

theorem selection_model_witness:
  "[\<lparr>name = ''a.txt'', path = ''a.txt'', content = ''hello''\<rparr>,
    \<lparr>name = ''b.txt'', path = ''src/b.txt'', content = ''world''\<rparr>] \<noteq> []
   \<and> selectedIndices (updateFiles [\<lparr>name = ''a.txt'', path = ''a.txt'', content = ''hello''\<rparr>,
        \<lparr>name = ''b.txt'', path = ''src/b.txt'', content = ''world''\<rparr>]
          (updateFiles [\<lparr>name = ''c.txt'', path = ''c.txt'', content = ''!''\<rparr>] initial_view)) =
       [Some 0, Some 1]
   \<and> (0::nat) < length (fileList (updateFiles [\<lparr>name = ''c.txt'', path = ''c.txt'', content = ''!''\<rparr>] initial_view))
   \<and> checked (fileList (toggle 0 (updateFiles [\<lparr>name = ''c.txt'', path = ''c.txt'', content = ''!''\<rparr>] initial_view)) ! 0) = False"
proof -
  let ?files = "[\<lparr>name = ''a.txt'', path = ''a.txt'', content = ''hello''\<rparr>,
        \<lparr>name = ''b.txt'', path = ''src/b.txt'', content = ''world''\<rparr>]"
  let ?v = "updateFiles [\<lparr>name = ''c.txt'', path = ''c.txt'', content = ''!''\<rparr>] initial_view"
  have l: "(0::nat) < length (fileList ?v)"
    by (simp add: updateFiles_def renderFileList_def initial_view_def)
  have c: "checked (fileList ?v ! 0) = True"
    by (simp add: updateFiles_def renderFileList_def initial_view_def render_item_def)
  show ?thesis
    using selection_model [of ?files ?v 0] l c by (simp add: upt_conv_Cons)
qed

text \<open>
  C7 as stated fails for the toggle: a click changes the state of the checkbox, so two
  clicks on the same checkbox do not leave the state of one click.
\<close>

theorem toggle_not_idempotent:
  "toggle 0 (toggle 0 (updateFiles [\<lparr>name = ''a.txt'', path = ''a.txt'', content = ''hello''\<rparr>] initial_view))
   \<noteq> toggle 0 (updateFiles [\<lparr>name = ''a.txt'', path = ''a.txt'', content = ''hello''\<rparr>] initial_view)"
proof
  let ?v = "updateFiles [\<lparr>name = ''a.txt'', path = ''a.txt'', content = ''hello''\<rparr>] initial_view"
  assume "toggle 0 (toggle 0 ?v) = toggle 0 ?v"
  then have "map checked (fileList (toggle 0 (toggle 0 ?v))) = map checked (fileList (toggle 0 ?v))"
    by simp
  then show False
    by (simp add: toggle_def updateFiles_def renderFileList_def initial_view_def render_item_def)
qed

lemma toggle_toggle: "toggle i (toggle i v) = v"
proof (cases "i < length (fileList v)")
  case True
  then have "(fileList v)[i := (fileList v ! i)\<lparr>checked := \<not> \<not> checked (fileList v ! i)\<rparr>] = fileList v"
    by simp
  with True show ?thesis
    by (simp add: toggle_def)
next
  case False
  then show ?thesis by (simp add: toggle_def)
qed

text \<open>
  C7, amended. \<open>Select All\<close> and \<open>Unselect All\<close> are idempotent; the toggle
  is its own inverse (two clicks restore the view) and does nothing for an index that
  has no item. None of the three adds or removes an item, changes the index that an
  item carries, or changes the file data: no index outside \<open>[0, n)\<close> is affected.
\<close>

theorem bulk_operations:
  "selectAll (selectAll v) = selectAll v
   \<and> unselectAll (unselectAll v) = unselectAll v
   \<and> toggle i (toggle i v) = v
   \<and> (length (fileList v) \<le> i \<longrightarrow> toggle i v = v)
   \<and> map data_index (fileList (selectAll v)) = map data_index (fileList v)
   \<and> map data_index (fileList (unselectAll v)) = map data_index (fileList v)
   \<and> map data_index (fileList (toggle i v)) = map data_index (fileList v)
   \<and> length (fileList (selectAll v)) = length (fileList v)
   \<and> length (fileList (unselectAll v)) = length (fileList v)
   \<and> length (fileList (toggle i v)) = length (fileList v)
   \<and> fileData (selectAll v) = fileData v
   \<and> fileData (unselectAll v) = fileData v
   \<and> fileData (toggle i v) = fileData v"
proof -
  have "selectAll (selectAll v) = selectAll v" "unselectAll (unselectAll v) = unselectAll v"
    by (simp_all add: selectAll_def unselectAll_def o_def)
  moreover have "length (fileList v) \<le> i \<longrightarrow> toggle i v = v"
    by (simp add: toggle_def)
  moreover have "length (fileList (selectAll v)) = length (fileList v)
        \<and> map data_index (fileList (selectAll v)) = map data_index (fileList v)
        \<and> fileData (selectAll v) = fileData v"
    by (simp add: selectAll_def o_def)
  moreover have "length (fileList (unselectAll v)) = length (fileList v)
        \<and> map data_index (fileList (unselectAll v)) = map data_index (fileList v)
        \<and> fileData (unselectAll v) = fileData v"
    by (simp add: unselectAll_def o_def)
  moreover have "length (fileList (toggle i v)) = length (fileList v)
        \<and> map data_index (fileList (toggle i v)) = map data_index (fileList v)
        \<and> fileData (toggle i v) = fileData v"
    by (simp add: toggle_def map_data_index_update)
  ultimately show ?thesis
    using toggle_toggle [of i v] by simp
qed

theorem bulk_operations_witness:
  "length (fileList (updateFiles [\<lparr>name = ''a.txt'', path = ''a.txt'', content = ''hello''\<rparr>] initial_view)) \<le> 3
   \<and> toggle 3 (updateFiles [\<lparr>name = ''a.txt'', path = ''a.txt'', content = ''hello''\<rparr>] initial_view) =
       updateFiles [\<lparr>name = ''a.txt'', path = ''a.txt'', content = ''hello''\<rparr>] initial_view"
proof -
  let ?v = "updateFiles [\<lparr>name = ''a.txt'', path = ''a.txt'', content = ''hello''\<rparr>] initial_view"
  have l: "length (fileList ?v) \<le> 3"
    by (simp add: updateFiles_def renderFileList_def initial_view_def)
  show ?thesis
    using l bulk_operations [of ?v 3] by simp
qed

section \<open>Enumerating the open files\<close>

lemma promise_all_run_fulfilled:
  assumes "length ps = n" "length vs = n" "\<forall>j<n. ps ! j = Inr (vs ! j)"
  shows "length slots = n \<Longrightarrow>
         \<forall>j<n. slots ! j = (if j \<in> D then Some (vs ! j) else None) \<Longrightarrow>
         distinct order \<Longrightarrow> set order = {0..<n} - D \<Longrightarrow>
         remaining = card ({0..<n} - D) \<Longrightarrow> 0 < remaining \<Longrightarrow>
         promise_all_run ps order slots remaining = Some (Inr vs)"
proof (induction order arbitrary: slots D remaining)
  case Nil
  then have "{0..<n} - D = {}"
    by simp
  then have "card ({0..<n} - D) = 0"
    by (simp only: card.empty)
  with Nil.prems(5,6) show ?case by simp
next
  case (Cons i order)
  from Cons.prems have i: "i < n" "i \<notin> D" "i \<notin> set order"
    by auto
  let ?slots = "slots[i := Some (vs ! i)]"
  let ?D = "insert i D"
  have open_i: "slots ! i = None" and ps_i: "ps ! i = Inr (vs ! i)"
    using Cons.prems(2) assms(3) i by simp_all
  have diff: "{0..<n} - ?D = ({0..<n} - D) - {i}"
    by auto
  have mem: "i \<in> {0..<n} - D"
    using i by simp
  have card: "card ({0..<n} - ?D) = remaining - 1"
    unfolding diff using mem Cons.prems(5) by (simp add: card_Diff_singleton)
  have vals: "\<forall>j<n. ?slots ! j = (if j \<in> ?D then Some (vs ! j) else None)"
  proof (intro allI impI)
    fix j assume j: "j < n"
    show "?slots ! j = (if j \<in> ?D then Some (vs ! j) else None)"
    proof (cases "j = i")
      case True
      with j Cons.prems(1) show ?thesis by simp
    next
      case False
      with j Cons.prems(2) show ?thesis by simp
    qed
  qed
  have step: "promise_all_run ps (i # order) slots remaining =
        (if remaining - 1 = 0 then Some (Inr (map the ?slots))
         else promise_all_run ps order ?slots (remaining - 1))"
    using i open_i ps_i assms(1) by (simp add: Let_def)
  show ?case
  proof (cases "remaining - 1 = 0")
    case True
    with card have "{0..<n} - ?D = {}"
      by simp
    then have "\<forall>j<n. j \<in> ?D"
      by auto
    with vals have "\<forall>j<n. ?slots ! j = Some (vs ! j)"
      by simp
    then have "map the ?slots = vs"
      using Cons.prems(1) assms(2) by (intro nth_equalityI) simp_all
    with step True show ?thesis by simp
  next
    case False
    have "set order = {0..<n} - ?D"
      using Cons.prems(3,4) i unfolding diff by auto
    then have "promise_all_run ps order ?slots (remaining - 1) = Some (Inr vs)"
      using Cons.prems(1,3) vals card False
      by (intro Cons.IH [where D = ?D]) simp_all
    with step False show ?thesis by simp
  qed
qed

lemma completion_order_set:
  assumes "completion_order n order"
  shows "distinct order \<and> set order = {0..<n}"
proof -
  from assms have l: "length order = n" and d: "distinct order" and b: "set order \<subseteq> {0..<n}"
    by (auto simp: completion_order_def list_all_iff)
  from l d have "card (set order) = card {0..<n}"
    by (simp add: distinct_card)
  with b have "set order = {0..<n}"
    by (intro card_subset_eq) simp_all
  with d show ?thesis by simp
qed

lemma promise_all_fulfilled:
  assumes "completion_order (length vs) order"
  shows "promise_all (map Inr vs) order = Some (Inr vs)"
proof (cases "vs = []")
  case True
  then show ?thesis by (simp add: promise_all_def)
next
  case False
  let ?n = "length vs"
  have "promise_all_run (map Inr vs) order (replicate ?n None) ?n = Some (Inr vs)"
    using completion_order_set [OF assms] False
    by (intro promise_all_run_fulfilled [where n = ?n and D = "{}"]) simp_all
  with False show ?thesis
    by (simp add: promise_all_def)
qed

lemma read_tab_fulfilled: "read_tab h tab = Inr (tab_file h tab)"
  by (simp add: read_tab_def tab_file_def split: TabInput.splits sum.splits)

lemma filter_tab_files:
  "map the (filter (\<lambda>f. f \<noteq> None) (map (tab_file h) ts)) = readable_records h ts"
  by (induction ts) (simp_all add: tab_file_def read_tab_def split: TabInput.splits sum.splits)

lemma getOpenFiles_completed:
  assumes "completion_order (length (concat (map tabs all))) order"
  shows "getOpenFiles h all order = Some (Inr (readable_records h (concat (map tabs all))))"
proof -
  let ?tabs = "concat (map tabs all)"
  have eq: "map (read_tab h) ?tabs = map Inr (map (tab_file h) ?tabs)"
    by (simp add: read_tab_fulfilled)
  have "promise_all (map Inr (map (tab_file h) ?tabs)) order = Some (Inr (map (tab_file h) ?tabs))"
    using assms by (intro promise_all_fulfilled) simp
  then have p: "promise_all (map (read_tab h) ?tabs) order = Some (Inr (map (tab_file h) ?tabs))"
    by (simp only: eq)
  show ?thesis
    unfolding getOpenFiles_def Let_def p using filter_tab_files [of h ?tabs] by simp
qed

lemma readable_records_append:
  "readable_records h (xs @ ys) = readable_records h xs @ readable_records h ys"
  by (induction xs) simp_all

text \<open>
  C8. When the document of one text tab cannot be opened, \<open>getOpenFiles\<close> is still
  fulfilled, whatever the order in which the reads complete, and its list is made of the
  readable records of the tabs before and after that tab: the failed tab contributes no
  entry, neither an error nor a placeholder.
\<close>

theorem getOpenFiles_drops_unreadable:
  assumes "concat (map tabs all) = before @ tab # after"
    and "input tab = TabInputText uri"
    and "openTextDocument h uri = Inl e"
    and "completion_order (length (before @ tab # after)) order"
  shows "getOpenFiles h all order =
           Some (Inr (readable_records h before @ readable_records h after))"
proof -
  have "getOpenFiles h all order = Some (Inr (readable_records h (before @ tab # after)))"
    using getOpenFiles_completed [of all order h] assms(1,4) by simp
  moreover have "readable_records h (tab # after) = readable_records h after"
    using assms(2,3) by simp
  ultimately show ?thesis
    by (simp add: readable_records_append)
qed

theorem getOpenFiles_drops_unreadable_witness:
  "getOpenFiles
     \<lparr>basename = drop 3, asRelativePath = drop 1,
      openTextDocument = (\<lambda>uri. if uri = ''/w/bad'' then Inl ''cannot open'' else Inr (''text of '' @ uri))\<rparr>
     [\<lparr>tabs = [\<lparr>input = TabInputText ''/w/a''\<rparr>, \<lparr>input = TabInputText ''/w/bad''\<rparr>]\<rparr>,
      \<lparr>tabs = [\<lparr>input = TabInputOther\<rparr>, \<lparr>input = TabInputText ''/w/c''\<rparr>]\<rparr>]
     [3, 1, 0, 2] =
   Some (Inr [\<lparr>name = ''a'', path = ''w/a'', content = ''text of /w/a''\<rparr>,
              \<lparr>name = ''c'', path = ''w/c'', content = ''text of /w/c''\<rparr>])"
proof -
  let ?h = "\<lparr>basename = drop 3, asRelativePath = drop 1,
      openTextDocument = (\<lambda>uri. if uri = ''/w/bad'' then Inl ''cannot open'' else Inr (''text of '' @ uri))\<rparr>"
  let ?all = "[\<lparr>tabs = [\<lparr>input = TabInputText ''/w/a''\<rparr>, \<lparr>input = TabInputText ''/w/bad''\<rparr>]\<rparr>,
      \<lparr>tabs = [\<lparr>input = TabInputOther\<rparr>, \<lparr>input = TabInputText ''/w/c''\<rparr>]\<rparr>]"
  have 1: "concat (map tabs ?all) =
        [\<lparr>input = TabInputText ''/w/a''\<rparr>] @ \<lparr>input = TabInputText ''/w/bad''\<rparr>
          # [\<lparr>input = TabInputOther\<rparr>, \<lparr>input = TabInputText ''/w/c''\<rparr>]"
    by simp
  have 2: "input \<lparr>input = TabInputText ''/w/bad''\<rparr> = TabInputText ''/w/bad''"
    by simp
  have 3: "openTextDocument ?h ''/w/bad'' = Inl ''cannot open''"
    by simp
  have 4: "completion_order
        (length ([\<lparr>input = TabInputText ''/w/a''\<rparr>] @ \<lparr>input = TabInputText ''/w/bad''\<rparr>
          # [\<lparr>input = TabInputOther\<rparr>, \<lparr>input = TabInputText ''/w/c''\<rparr>])) [3, 1, 0, 2]"
    by (simp add: completion_order_def)
  show ?thesis
    using getOpenFiles_drops_unreadable [OF 1 2 3 4] by simp
qed

text \<open>
  C9. Whatever the order in which the reads of the tabs complete (each completing once),
  \<open>getOpenFiles\<close> is fulfilled with the same list: the records of the readable text
  tabs in the order of the tabs.
\<close>

theorem getOpenFiles_tab_order:
  assumes "completion_order (length (concat (map tabs all))) order1"
    and "completion_order (length (concat (map tabs all))) order2"
  shows "getOpenFiles h all order1 = getOpenFiles h all order2
         \<and> getOpenFiles h all order1 = Some (Inr (readable_records h (concat (map tabs all))))"
  using getOpenFiles_completed [OF assms(1), of h] getOpenFiles_completed [OF assms(2), of h]
  by simp

theorem getOpenFiles_tab_order_witness:
  "getOpenFiles
     \<lparr>basename = drop 3, asRelativePath = drop 1,
      openTextDocument = (\<lambda>uri. if uri = ''/w/bad'' then Inl ''cannot open'' else Inr (''text of '' @ uri))\<rparr>
     [\<lparr>tabs = [\<lparr>input = TabInputText ''/w/a''\<rparr>, \<lparr>input = TabInputText ''/w/b''\<rparr>]\<rparr>,
      \<lparr>tabs = [\<lparr>input = TabInputText ''/w/c''\<rparr>]\<rparr>]
     [2, 0, 1] =
   getOpenFiles
     \<lparr>basename = drop 3, asRelativePath = drop 1,
      openTextDocument = (\<lambda>uri. if uri = ''/w/bad'' then Inl ''cannot open'' else Inr (''text of '' @ uri))\<rparr>
     [\<lparr>tabs = [\<lparr>input = TabInputText ''/w/a''\<rparr>, \<lparr>input = TabInputText ''/w/b''\<rparr>]\<rparr>,
      \<lparr>tabs = [\<lparr>input = TabInputText ''/w/c''\<rparr>]\<rparr>]
     [1, 2, 0]
   \<and> getOpenFiles
     \<lparr>basename = drop 3, asRelativePath = drop 1,
      openTextDocument = (\<lambda>uri. if uri = ''/w/bad'' then Inl ''cannot open'' else Inr (''text of '' @ uri))\<rparr>
     [\<lparr>tabs = [\<lparr>input = TabInputText ''/w/a''\<rparr>, \<lparr>input = TabInputText ''/w/b''\<rparr>]\<rparr>,
      \<lparr>tabs = [\<lparr>input = TabInputText ''/w/c''\<rparr>]\<rparr>]
     [2, 0, 1] =
   Some (Inr [\<lparr>name = ''a'', path = ''w/a'', content = ''text of /w/a''\<rparr>,
              \<lparr>name = ''b'', path = ''w/b'', content = ''text of /w/b''\<rparr>,
              \<lparr>name = ''c'', path = ''w/c'', content = ''text of /w/c''\<rparr>])"
proof -
  let ?all = "[\<lparr>tabs = [\<lparr>input = TabInputText ''/w/a''\<rparr>, \<lparr>input = TabInputText ''/w/b''\<rparr>]\<rparr>,
      \<lparr>tabs = [\<lparr>input = TabInputText ''/w/c''\<rparr>]\<rparr>]"
  let ?h = "\<lparr>basename = drop 3, asRelativePath = drop 1,
      openTextDocument = (\<lambda>uri. if uri = ''/w/bad'' then Inl ''cannot open'' else Inr (''text of '' @ uri))\<rparr>"
  have 1: "completion_order (length (concat (map tabs ?all))) [2, 0, 1]"
    by (simp add: completion_order_def)
  have 2: "completion_order (length (concat (map tabs ?all))) [1, 2, 0]"
    by (simp add: completion_order_def)
  have r: "readable_records ?h (concat (map tabs ?all)) =
        [\<lparr>name = ''a'', path = ''w/a'', content = ''text of /w/a''\<rparr>,
         \<lparr>name = ''b'', path = ''w/b'', content = ''text of /w/b''\<rparr>,
         \<lparr>name = ''c'', path = ''w/c'', content = ''text of /w/c''\<rparr>]"
    by simp
  from getOpenFiles_tab_order [OF 1 2, where h = ?h]
  have a: "getOpenFiles ?h ?all [2, 0, 1] = getOpenFiles ?h ?all [1, 2, 0]"
    and b: "getOpenFiles ?h ?all [2, 0, 1] = Some (Inr (readable_records ?h (concat (map tabs ?all))))"
    by (rule conjunct1, rule conjunct2)
  from b have "getOpenFiles ?h ?all [2, 0, 1] =
      Some (Inr [\<lparr>name = ''a'', path = ''w/a'', content = ''text of /w/a''\<rparr>,
         \<lparr>name = ''b'', path = ''w/b'', content = ''text of /w/b''\<rparr>,
         \<lparr>name = ''c'', path = ''w/c'', content = ''text of /w/c''\<rparr>])"
    by (simp only: r)
  with a show ?thesis
    by (rule conjI)
qed

text \<open>
  C10. A checked item whose index has no record in \<open>fileData\<close> (no number, a
  negative number, or a number from the length of the array on) pushes nothing: the
  combined text is the one without that item. After an empty file list has arrived the
  items of the list before stay in the page, and the combined text is the empty string.
  The handler has no failing step.
\<close>

theorem combine_skips_missing_record:
  "(array_get (fileData v) (parseInt (data_index item)) = None \<longrightarrow>
      combine (v\<lparr>fileList := pre @ item # post\<rparr>) = combine (v\<lparr>fileList := pre @ post\<rparr>))
   \<and> (parseInt (data_index item) = None \<or> parseInt (data_index item) = Some k \<and> (k < 0 \<or> int (length (fileData v)) \<le> k)
        \<longrightarrow> array_get (fileData v) (parseInt (data_index item)) = None)
   \<and> combine (updateFiles [] v) = []"
proof -
  have "combine (updateFiles [] v) = []"
    by (simp add: combine_def selectedContents_def fold_push_selected updateFiles_def
        renderFileList_def array_get_Nil concat_map_Nil)
  moreover have "parseInt (data_index item) = None \<or> parseInt (data_index item) = Some k \<and> (k < 0 \<or> int (length (fileData v)) \<le> k)
        \<longrightarrow> array_get (fileData v) (parseInt (data_index item)) = None"
    by (auto simp: array_get_def)
  ultimately show ?thesis
    using selectedContents_skip [of v item pre post] by (simp add: combine_def)
qed

theorem combine_skips_missing_record_witness:
  "parseInt (data_index \<lparr>data_index = ''7'', checked = True, label_html = ''x'', path_html = ''x''\<rparr>) = Some 7
   \<and> int (length (fileData (updateFiles [\<lparr>name = ''a.txt'', path = ''a.txt'', content = ''hello''\<rparr>] initial_view))) \<le> 7
   \<and> array_get (fileData (updateFiles [\<lparr>name = ''a.txt'', path = ''a.txt'', content = ''hello''\<rparr>] initial_view))
        (parseInt (data_index \<lparr>data_index = ''7'', checked = True, label_html = ''x'', path_html = ''x''\<rparr>)) = None
   \<and> combine ((updateFiles [\<lparr>name = ''a.txt'', path = ''a.txt'', content = ''hello''\<rparr>] initial_view)
        \<lparr>fileList := [] @ \<lparr>data_index = ''7'', checked = True, label_html = ''x'', path_html = ''x''\<rparr>
           # fileList (updateFiles [\<lparr>name = ''a.txt'', path = ''a.txt'', content = ''hello''\<rparr>] initial_view)\<rparr>) =
      ''// ===== File: a.txt =====\<newline>\<newline>hello''"
proof -
  let ?v = "updateFiles [\<lparr>name = ''a.txt'', path = ''a.txt'', content = ''hello''\<rparr>] initial_view"
  let ?item = "\<lparr>data_index = ''7'', checked = True, label_html = ''x'', path_html = ''x''\<rparr>"
  have p: "parseInt (data_index ?item) = Some 7"
    by (simp add: parseInt_def is_space_def is_digit_def digits_val_def digit_val_def)
  have l: "int (length (fileData ?v)) \<le> 7"
    by (simp add: updateFiles_def renderFileList_def)
  have "?v\<lparr>fileList := [] @ fileList ?v\<rparr> = ?v"
    by simp
  moreover have "combine ?v = ''// ===== File: a.txt =====\<newline>\<newline>hello''"
    using selectedContents_rendered [OF rendered_initial, of "[\<lparr>name = ''a.txt'', path = ''a.txt'', content = ''hello''\<rparr>]"]
    by (simp add: combine_def header_def selected_records_def updateFiles_def renderFileList_def
        initial_view_def render_item_def enumerate_eq_zip)
  ultimately show ?thesis
    using p l combine_skips_missing_record [of ?v ?item "[]" "fileList ?v" 7] by simp
qed

end
